theory Spec2Isabelle
  imports Complex_Main
begin

section \<open>The GAN training scripts: data model\<close>

text \<open>
  The repository holds two scripts, \<^verbatim>\<open>gan.py\<close> and \<^verbatim>\<open>train.py\<close>. Both build synthetic
  samples with \<^verbatim>\<open>get_normal_shaped_array\<close> and \<^verbatim>\<open>get_normal_shaped_arrays\<close> (the two
  copies are textually the same), and interleave them with MNIST samples
  (\<^verbatim>\<open>get_discriminator_train_set\<close> in gan.py, \<^verbatim>\<open>discriminator_train_test_set\<close> in
  train.py, which also splits the result).

  Conventions of the embedding.
  \<^item> A two-dimensional numpy array is the list of its rows. Every call site passes a
    two-element shape and \<^verbatim>\<open>get_normal_shaped_arrays\<close> reads \<^verbatim>\<open>shape[1]\<close>, so a shape is
    a pair of naturals. A one-dimensional draw of length \<open>L\<close> behaves as the shape
    \<open>(L, 1)\<close> does: axis 0 enumerates its elements.
  \<^item> A float64 is the real number it denotes, or one of the three non-finite values.
    In the shaper the arithmetic is exact: the noise is finite, and so is everything
    before the one division. The product \<^verbatim>\<open>len(X) * train_test_split\<close>, whose integer
    part is the split index, is rounded to float64 and can overflow.
  \<^item> The ambient random state of \<^verbatim>\<open>np.random\<close> is passed explicitly: the stream of the
    values the standard normal source will yield next.
  \<^item> A Python exception is a value \<open>Inl e\<close>.
\<close>

datatype error = ValueError | IndexError | OverflowError

datatype npfloat = Finite real | PosInf | NegInf | NaN

type_synonym rng = "nat \<Rightarrow> real"

type_synonym 'a array2 = "'a list list"

subsection \<open>The numpy operations the scripts call\<close>

text \<open>\<^verbatim>\<open>np.random.normal(size=shape)\<close>: consumes \<open>r * c\<close> values, row by row.\<close>

definition np_random_normal :: "nat \<times> nat \<Rightarrow> rng \<Rightarrow> real array2 \<times> rng" where
  "np_random_normal shape g =
     (case shape of (r, c) \<Rightarrow>
        (map (\<lambda>i. map (\<lambda>j. g (i * c + j)) [0..<c]) [0..<r], (\<lambda>k. g (r * c + k))))"

text \<open>
  \<^verbatim>\<open>np.sort(a, axis=0)\<close>: every column is sorted on its own, the shape is kept.
  Column \<open>j\<close> is read down the rows, sorted, and written back down the rows.
\<close>

definition column :: "'a array2 \<Rightarrow> nat \<Rightarrow> 'a list" where
  "column a j = map (\<lambda>row. row ! j) a"

definition np_sort_axis0 :: "real array2 \<Rightarrow> real array2" where
  "np_sort_axis0 a =
     (case a of
        [] \<Rightarrow> []
      | r0 # _ \<Rightarrow>
          (let cols = map (\<lambda>j. sort (column a j)) [0..<length r0]
           in map (\<lambda>i. map (\<lambda>col. col ! i) cols) [0..<length a]))"

text \<open>
  \<^verbatim>\<open>np.amin\<close> and \<^verbatim>\<open>np.amax\<close> reduce over the flattened array; on an array with no
  element they raise ValueError.
\<close>

definition np_amin :: "real array2 \<Rightarrow> error + real" where
  "np_amin a = (case concat a of [] \<Rightarrow> Inl ValueError | x # xs \<Rightarrow> Inr (fold min xs x))"

definition np_amax :: "real array2 \<Rightarrow> error + real" where
  "np_amax a = (case concat a of [] \<Rightarrow> Inl ValueError | x # xs \<Rightarrow> Inr (fold max xs x))"

text \<open>
  Float division of a finite value by a finite value. numpy does not raise on a zero
  divisor: it warns and yields \<open>nan\<close> for \<open>0 / 0\<close> and a signed infinity otherwise.
\<close>

definition np_div :: "real \<Rightarrow> real \<Rightarrow> npfloat" where
  "np_div x d =
     (if d = 0 then (if x = 0 then NaN else if 0 < x then PosInf else NegInf)
      else Finite (x / d))"

text \<open>
  \<^verbatim>\<open>a[i] = v\<close> on a two-dimensional array with a scalar \<open>v\<close>: the index selects a row
  (a negative index counts from the end) and the scalar is broadcast over the whole
  row. An index out of range raises IndexError.
\<close>

definition set_row :: "'a array2 \<Rightarrow> int \<Rightarrow> 'a \<Rightarrow> error + 'a array2" where
  "set_row a i v =
     (let n = int (length a); j = (if i < 0 then n + i else i)
      in if 0 \<le> j \<and> j < n
         then Inr (a[nat j := replicate (length (a ! nat j)) v])
         else Inl IndexError)"

section \<open>The distribution shaper\<close>

text \<open>
  \<^verbatim>\<open>get_normal_shaped_array\<close>, lines 38 to 55 of gan.py (39 to 56 of train.py), on the
  array already drawn.
\<close>

definition shape_drawn :: "real array2 \<Rightarrow> error + npfloat array2" where
  "shape_drawn drawn =
     (let normal = np_sort_axis0 drawn in
      case np_amin normal of
        Inl e \<Rightarrow> Inl e
      | Inr mn \<Rightarrow>
          (let new_normal = map (map (\<lambda>x. x - mn)) normal in
           case np_amax new_normal of
             Inl e \<Rightarrow> Inl e
           | Inr new_normal_max \<Rightarrow>
               (let normal_shaped = map (map (\<lambda>x. np_div x new_normal_max)) new_normal in
                case set_row normal_shaped 0 (Finite (1 / 10000)) of
                  Inl e \<Rightarrow> Inl e
                | Inr s1 \<Rightarrow> set_row s1 (int (length s1) - 1) (Finite (999 / 1000)))))"

text \<open>
  The whole function: the draw comes first, so the random state has advanced whether
  or not the rest raises.
\<close>

definition get_normal_shaped_array :: "nat \<times> nat \<Rightarrow> rng \<Rightarrow> (error + npfloat array2) \<times> rng" where
  "get_normal_shaped_array shape g =
     (case np_random_normal shape g of (normal, g') \<Rightarrow> (shape_drawn normal, g'))"

text \<open>
  \<^verbatim>\<open>get_normal_shaped_arrays\<close>: the loop appends one shaped array per iteration, each
  from a fresh draw. \<^verbatim>\<open>n_arrays\<close> is a count, so a natural number.
\<close>

fun arrays_loop ::
  "nat \<Rightarrow> nat \<times> nat \<Rightarrow> npfloat array2 list \<Rightarrow> rng \<Rightarrow> (error + npfloat array2 list) \<times> rng" where
  "arrays_loop 0 shape normal_shaped g = (Inr normal_shaped, g)"
| "arrays_loop (Suc n) shape normal_shaped g =
     (case get_normal_shaped_array shape g of
        (Inl e, g') \<Rightarrow> (Inl e, g')
      | (Inr a, g') \<Rightarrow> arrays_loop n shape (normal_shaped @ [a]) g')"

text \<open>
  \<^verbatim>\<open>np.array(l).reshape(n, c)\<close> on a list of equally shaped arrays: the elements in
  row-major order, cut into \<open>n\<close> rows of \<open>c\<close>; ValueError when the sizes disagree.
\<close>

definition np_reshape2 :: "'a list \<Rightarrow> nat \<Rightarrow> nat \<Rightarrow> error + 'a array2" where
  "np_reshape2 flat n c =
     (if length flat = n * c then Inr (map (\<lambda>i. take c (drop (i * c) flat)) [0..<n])
      else Inl ValueError)"

definition get_normal_shaped_arrays ::
  "nat \<Rightarrow> nat \<times> nat \<Rightarrow> rng \<Rightarrow> (error + npfloat array2) \<times> rng" where
  "get_normal_shaped_arrays n_arrays shape g =
     (case arrays_loop n_arrays shape [] g of
        (Inl e, g') \<Rightarrow> (Inl e, g')
      | (Inr normal_shaped, g') \<Rightarrow>
          (np_reshape2 (concat (concat normal_shaped)) n_arrays (snd shape), g'))"

section \<open>The dataset assembler\<close>

text \<open>
  The loop of \<^verbatim>\<open>get_discriminator_train_set\<close> (gan.py, lines 92 to 96) and of
  \<^verbatim>\<open>discriminator_train_test_set\<close> (train.py, lines 97 to 101), the same text in both:
  \<open>i\<close> runs over \<^verbatim>\<open>range(len(normal_shaped_data))\<close>, and \<^verbatim>\<open>mnist_data[i]\<close> raises
  IndexError past the end of \<^verbatim>\<open>mnist_data\<close>. A label is the two-element list the code
  appends. The final \<^verbatim>\<open>np.array\<close> conversions keep order and content.
\<close>

function assemble_loop ::
  "nat \<Rightarrow> 'a list \<Rightarrow> 'a list \<Rightarrow> 'a list \<Rightarrow> int list list \<Rightarrow> error + ('a list \<times> int list list)" where
  "assemble_loop i normal_shaped_data mnist_data X y =
     (if i < length normal_shaped_data then
        (if i < length mnist_data then
           assemble_loop (Suc i) normal_shaped_data mnist_data
             (X @ [normal_shaped_data ! i, mnist_data ! i]) (y @ [[1, 0], [0, 1]])
         else Inl IndexError)
      else Inr (X, y))"
  by pat_completeness auto
termination
  by (relation "measure (\<lambda>(i, normal_shaped_data, _). length normal_shaped_data - i)") auto

declare assemble_loop.simps [simp del]

definition get_discriminator_train_set ::
  "'a list \<Rightarrow> 'a list \<Rightarrow> error + ('a list \<times> int list list)" where
  "get_discriminator_train_set normal_shaped_data mnist_data =
     assemble_loop 0 normal_shaped_data mnist_data [] []"

subsection \<open>The float64 product and its integer part\<close>

text \<open>
  Rounding a real to float64 (IEEE 754 binary64, round to nearest, ties to even). The
  binade of \<open>x\<close> is the \<open>e\<close> with \<open>2 ^ e \<le> \<bar>x\<bar> < 2 ^ (e + 1)\<close>, found from the bit
  length of an integer; below \<open>2 ^ - 1022\<close> the numbers are subnormal and keep the
  spacing of that binade. The spacing is \<open>2 ^ (e - 52)\<close>, and \<open>x\<close> is rounded to the
  nearest multiple of it. A result of magnitude \<open>2 ^ 1024\<close> or more is an infinity.
\<close>

function bit_length :: "int \<Rightarrow> nat" where
  "bit_length n = (if n \<le> 0 then 0 else Suc (bit_length (n div 2)))"
  by pat_completeness auto
termination
  by (relation "measure nat") auto

declare bit_length.simps [simp del]

definition pow2 :: "int \<Rightarrow> real" where
  "pow2 k = (if 0 \<le> k then 2 ^ nat k else 1 / 2 ^ nat (- k))"

definition binade :: "real \<Rightarrow> int" where
  "binade x =
     (let a = \<bar>x\<bar>
      in if 1 \<le> a then int (bit_length \<lfloor>a\<rfloor>) - 1
         else - int (bit_length (\<lceil>1 / a\<rceil> - 1)))"

definition ulp :: "real \<Rightarrow> real" where
  "ulp x = pow2 (max (binade x) (- 1022) - 52)"

definition round_half_even :: "real \<Rightarrow> int" where
  "round_half_even y =
     (let fl = \<lfloor>y\<rfloor>; d = y - of_int fl
      in if d < 1 / 2 then fl else if 1 / 2 < d then fl + 1
         else if even fl then fl else fl + 1)"

definition round64 :: "real \<Rightarrow> npfloat" where
  "round64 x =
     (if x = 0 then Finite 0
      else
        (let r = of_int (round_half_even (x / ulp x)) * ulp x
         in if 2 ^ 1024 \<le> r then PosInf
            else if r \<le> - (2 ^ 1024) then NegInf
            else Finite r))"

text \<open>
  The float product \<open>a * f\<close> for a finite \<open>a\<close>: the exact product rounded; an infinite
  \<open>f\<close> keeps or flips its sign, and gives \<open>nan\<close> against zero; \<open>nan\<close> stays \<open>nan\<close>.
\<close>

definition float_mul :: "real \<Rightarrow> npfloat \<Rightarrow> npfloat" where
  "float_mul a f =
     (case f of
        Finite x \<Rightarrow> round64 (a * x)
      | PosInf \<Rightarrow> (if a = 0 then NaN else if 0 < a then PosInf else NegInf)
      | NegInf \<Rightarrow> (if a = 0 then NaN else if 0 < a then NegInf else PosInf)
      | NaN \<Rightarrow> NaN)"

text \<open>
  Python's \<^verbatim>\<open>int(x)\<close> on a float: truncation towards zero; OverflowError on an
  infinity, ValueError on \<open>nan\<close>.
\<close>

definition trunc :: "real \<Rightarrow> int" where
  "trunc x = (if 0 \<le> x then \<lfloor>x\<rfloor> else \<lceil>x\<rceil>)"

definition py_int :: "npfloat \<Rightarrow> error + int" where
  "py_int f =
     (case f of
        Finite x \<Rightarrow> Inr (trunc x)
      | PosInf \<Rightarrow> Inl OverflowError
      | NegInf \<Rightarrow> Inl OverflowError
      | NaN \<Rightarrow> Inl ValueError)"

subsection \<open>Slices and the split\<close>

text \<open>
  The slices \<^verbatim>\<open>xs[:e]\<close> and \<^verbatim>\<open>xs[s:]\<close>: a negative bound counts from the end, and
  every bound is clipped to the list. A slice never raises.
\<close>

definition slice_bound :: "'a list \<Rightarrow> int \<Rightarrow> nat" where
  "slice_bound xs b =
     (let n = int (length xs) in nat (if b < 0 then max 0 (n + b) else min b n))"

definition slice_to :: "'a list \<Rightarrow> int \<Rightarrow> 'a list" where
  "slice_to xs e = take (slice_bound xs e) xs"

definition slice_from :: "'a list \<Rightarrow> int \<Rightarrow> 'a list" where
  "slice_from xs s = drop (slice_bound xs s) xs"

text \<open>
  \<^verbatim>\<open>discriminator_train_test_set\<close>. The fraction \<^verbatim>\<open>train_test_split\<close> is a float, as its
  default 0.1 is. In \<^verbatim>\<open>int(len(X) * train_test_split)\<close> the length is converted to float
  first; a list in memory has fewer than \<open>2 ^ 53\<close> elements, so that conversion is
  exact and the length enters the product as the real number it is.
\<close>

definition discriminator_train_test_set ::
  "'a list \<Rightarrow> 'a list \<Rightarrow> npfloat \<Rightarrow>
   error + ('a list \<times> int list list \<times> 'a list \<times> int list list)" where
  "discriminator_train_test_set normal_shaped_data mnist_data train_test_split =
     (case assemble_loop 0 normal_shaped_data mnist_data [] [] of
        Inl e \<Rightarrow> Inl e
      | Inr (X, y) \<Rightarrow>
          (case py_int (float_mul (real (length X)) train_test_split) of
             Inl e \<Rightarrow> Inl e
           | Inr split \<Rightarrow>
               (let X_train = slice_to X (- split);
                    y_train = slice_to y (- split);
                    X_test = slice_from X (- split);
                    y_test = slice_from y (- split)
                in Inr (X_train, y_train, X_test, y_test))))"

section \<open>The generator's training input\<close>

text \<open>
  train.py, lines 138 to 145: the batch \<^verbatim>\<open>X\<close> and the targets \<^verbatim>\<open>y\<close> handed to
  \<^verbatim>\<open>gan.train_generator\<close>, from the random state at line 138.
\<close>

definition generator_training_set ::
  "rng \<Rightarrow> (error + (npfloat array2 \<times> int list list)) \<times> rng" where
  "generator_training_set g =
     (case get_normal_shaped_arrays 100000 (1, 16) g of
        (Inl e, g') \<Rightarrow> (Inl e, g')
      | (Inr X, g') \<Rightarrow> (Inr (X, replicate 100000 [0, 1]), g'))"

section \<open>Properties of the distribution shaper\<close>

subsection \<open>The numpy operations on one row and on a constant array\<close>

lemma np_sort_axis0_single_row: "np_sort_axis0 [row] = [row]"
  by (simp add: np_sort_axis0_def column_def o_def map_nth)

lemma np_amin_ok:
  assumes "concat a \<noteq> []"
  shows "np_amin a = Inr (Min (set (concat a)))"
proof (cases "concat a")
  case Nil
  with assms show ?thesis by simp
next
  case (Cons x xs)
  then show ?thesis
    using Min.set_eq_fold [of x xs] by (simp add: np_amin_def)
qed

lemma np_amax_ok:
  assumes "concat a \<noteq> []"
  shows "np_amax a = Inr (Max (set (concat a)))"
proof (cases "concat a")
  case Nil
  with assms show ?thesis by simp
next
  case (Cons x xs)
  then show ?thesis
    using Max.set_eq_fold [of x xs] by (simp add: np_amax_def)
qed

lemma set_row_first: "a \<noteq> [] \<Longrightarrow> set_row a 0 v = Inr (a[0 := replicate (length (a ! 0)) v])"
  by (simp add: set_row_def)

lemma set_row_last:
  "a \<noteq> [] \<Longrightarrow>
   set_row a (int (length a) - 1) v =
     Inr (a[length a - 1 := replicate (length (a ! (length a - 1))) v])"
  by (cases a) (simp_all add: set_row_def Let_def nat_diff_distrib')

lemma shape_drawn_single_row:
  assumes "row \<noteq> []"
  shows "shape_drawn [row] = Inr [replicate (length row) (Finite (999 / 1000))]"
  using assms
  by (simp add: shape_drawn_def np_sort_axis0_single_row np_amin_ok np_amax_ok set_row_def)

lemma np_random_normal_single_row:
  "np_random_normal (1, L) g = ([map g [0..<L]], (\<lambda>k. g (L + k)))"
  by (simp add: np_random_normal_def)

lemma get_normal_shaped_array_single_row:
  "1 \<le> L \<Longrightarrow>
   get_normal_shaped_array (1, L) g =
     (Inr [replicate L (Finite (999 / 1000))], (\<lambda>k. g (L + k)))"
  by (simp add: get_normal_shaped_array_def np_random_normal_single_row shape_drawn_single_row
        del: One_nat_def)


lemma np_random_normal_const:
  assumes "\<forall>k<r * c. g k = v"
  shows "fst (np_random_normal (r, c) g) = replicate r (replicate c v)"
proof -
  have cell: "g (i * c + j) = v" if "i < r" "j < c" for i j
  proof -
    have "i * c + j < Suc i * c" using that by simp
    also have "\<dots> \<le> r * c" using that by (intro mult_le_mono1) simp
    finally show ?thesis using assms by simp
  qed
  have "map (\<lambda>j. g (i * c + j)) [0..<c] = replicate c v" if "i < r" for i
    using that cell by (simp add: map_replicate_const [of v "[0..<c]", simplified, symmetric])
  then show ?thesis
    by (simp add: np_random_normal_def map_replicate_const [of "replicate c v" "[0..<r]", simplified, symmetric])
qed

lemma np_sort_axis0_nonempty:
  "a \<noteq> [] \<Longrightarrow>
   np_sort_axis0 a =
     map (\<lambda>i. map (\<lambda>col. col ! i) (map (\<lambda>j. sort (column a j)) [0..<length (hd a)]))
       [0..<length a]"
  by (cases a) (simp_all add: np_sort_axis0_def Let_def del: upt_Suc)

lemma np_sort_axis0_const:
  "np_sort_axis0 (replicate r (replicate c v)) = replicate r (replicate c v)"
proof (cases "r = 0")
  case True
  then show ?thesis by (simp add: np_sort_axis0_def)
next
  case False
  let ?a = "replicate r (replicate c v)"
  have ne: "?a \<noteq> []" and hd: "hd ?a = replicate c v"
    using False by (simp_all add: hd_replicate)
  have col: "sort (column ?a j) = replicate r v" if "j < c" for j
    using that by (simp add: column_def sorted_sort_id)
  have cols: "map (\<lambda>j. sort (column ?a j)) [0..<c] = replicate c (replicate r v)"
    using col by (simp add: map_replicate_const [of "replicate r v" "[0..<c]", simplified, symmetric])
  have rows: "map (\<lambda>i. map (\<lambda>col. col ! i) (replicate c (replicate r v))) [0..<r] = ?a"
    by (simp add: map_replicate_const [of "replicate c v" "[0..<r]", simplified, symmetric])
  show ?thesis
    unfolding np_sort_axis0_nonempty [OF ne] hd
    by (simp only: length_replicate cols rows)
qed


lemma concat_replicate_nonempty:
  "0 < r \<Longrightarrow> 0 < c \<Longrightarrow> concat (replicate r (replicate c v)) \<noteq> []"
  by (cases r; cases c) simp_all

lemma set_concat_replicate:
  "0 < r \<Longrightarrow> 0 < c \<Longrightarrow> set (concat (replicate r (replicate c v))) = {v}"
  by (cases r; cases c) auto

lemma np_amin_const: "0 < r \<Longrightarrow> 0 < c \<Longrightarrow> np_amin (replicate r (replicate c v)) = Inr v"
  by (simp add: np_amin_ok concat_replicate_nonempty set_concat_replicate)

lemma np_amax_const: "0 < r \<Longrightarrow> 0 < c \<Longrightarrow> np_amax (replicate r (replicate c v)) = Inr v"
  by (simp add: np_amax_ok concat_replicate_nonempty set_concat_replicate)

lemma shape_drawn_const:
  assumes "0 < r" "0 < c"
  shows "shape_drawn (replicate r (replicate c v)) =
           Inr ((replicate r (replicate c NaN))
                  [0 := replicate c (Finite (1 / 10000)),
                   r - 1 := replicate c (Finite (999 / 1000))])"
proof -
  let ?nan = "replicate r (replicate c NaN)"
  let ?s1 = "?nan[0 := replicate c (Finite (1 / 10000))]"
  have first: "set_row ?nan 0 (Finite (1 / 10000)) = Inr ?s1"
    using assms by (simp add: set_row_first)
  have "?s1 \<noteq> []" using assms by simp
  from set_row_last [OF this, of "Finite (999 / 1000)"]
  have last: "set_row ?s1 (int (length ?s1) - 1) (Finite (999 / 1000)) =
      Inr (?s1[r - 1 := replicate c (Finite (999 / 1000))])"
    using assms by (simp add: nth_list_update)
  show ?thesis
    using assms first last
    by (simp add: shape_drawn_def np_sort_axis0_const np_amin_const np_amax_const np_div_def)
qed

subsection \<open>The sort runs along axis 0\<close>

text \<open>
  Claim C2: the noise is sorted into non-decreasing order along the axis that
  enumerates the elements of one sample, not along an axis of size 1.

  The code sorts with \<^verbatim>\<open>axis=0\<close>, and every call site draws the shape \<open>(1, L)\<close>, whose
  axis 0 has size 1: the sort changes nothing (\<open>np_sort_axis0_single_row\<close>). On the
  draw \<open>[[1, 0]]\<close> the array after line 38 of gan.py is still \<open>[[1, 0]]\<close>, which is
  not in non-decreasing order along the sample.
\<close>

theorem sort_leaves_single_row_unsorted:
  "np_sort_axis0 (fst (np_random_normal (1, 2) (\<lambda>k. 1 - real k))) = [[1, 0]] \<and>
   \<not> sorted [1, 0 :: real]"
  by (simp add: np_random_normal_def np_sort_axis0_def column_def upt_rec)

subsection \<open>A single row comes back constant\<close>

text \<open>
  Claim C9: for every shape \<open>(1, L)\<close> with \<open>L \<ge> 1\<close> the returned array is constant,
  every element equal to 0.999: the array has one row, so both endpoint assignments
  address it and the second overwrites the first.
\<close>

theorem single_row_all_999:
  "1 \<le> L \<Longrightarrow>
   fst (get_normal_shaped_array (1, L) g) = Inr [replicate L (Finite (999 / 1000))]"
  by (simp add: get_normal_shaped_array_single_row del: One_nat_def)

theorem single_row_all_999_witness:
  "(1::nat) \<le> 3 \<and>
   fst (get_normal_shaped_array (1, 3) real) =
     Inr [[Finite (999 / 1000), Finite (999 / 1000), Finite (999 / 1000)]]"
  using single_row_all_999 [of 3 real] by (simp add: numeral_3_eq_3)

subsection \<open>A draw of equal values\<close>

text \<open>
  Claim C3: on a draw whose values are all equal the shaper detects the zero range and
  signals an error instead of dividing by zero.

  The code has no such check. On three equal values along axis 0 it returns an array
  with a NaN in it, and no error.
\<close>

theorem equal_draw_returns_nan:
  "fst (get_normal_shaped_array (3, 1) (\<lambda>k. 5)) =
     Inr [[Finite (1 / 10000)], [NaN], [Finite (999 / 1000)]]"
  by (simp add: get_normal_shaped_array_def np_random_normal_def shape_drawn_def
      np_sort_axis0_def column_def np_amin_def np_amax_def np_div_def set_row_def upt_rec)

text \<open>
  Claim C3, amended: on a draw of any shape \<open>(r, c)\<close> with \<open>r, c \<ge> 1\<close> whose values
  are all equal, the shaper signals no error. The division is \<open>0 / 0\<close> in every
  position, so every element is NaN before the endpoint assignments; the function
  returns that array with row 0 set to 1e-4 and then row \<open>r - 1\<close> set to 0.999.
\<close>

theorem equal_draw_no_error:
  assumes "0 < r" "0 < c" "\<forall>k<r * c. g k = v"
  shows "fst (get_normal_shaped_array (r, c) g) =
           Inr ((replicate r (replicate c NaN))
                  [0 := replicate c (Finite (1 / 10000)),
                   r - 1 := replicate c (Finite (999 / 1000))])"
proof -
  have "fst (get_normal_shaped_array (r, c) g) = shape_drawn (fst (np_random_normal (r, c) g))"
    by (simp add: get_normal_shaped_array_def split: prod.splits)
  also have "\<dots> = shape_drawn (replicate r (replicate c v))"
    by (simp only: np_random_normal_const [OF assms(3)])
  finally show ?thesis
    using assms(1,2) by (simp add: shape_drawn_const)
qed

theorem equal_draw_no_error_witness:
  "(0::nat) < 3 \<and> (0::nat) < 2 \<and>
   fst (get_normal_shaped_array (3, 2) (\<lambda>k. 5)) =
     Inr [[Finite (1 / 10000), Finite (1 / 10000)], [NaN, NaN],
          [Finite (999 / 1000), Finite (999 / 1000)]]"
  using equal_draw_no_error [of 3 2 "\<lambda>k. 5" 5] by (simp add: numeral_3_eq_3 numeral_2_eq_2)

subsection \<open>A draw along axis 0\<close>

text \<open>
  The shape \<open>(L, 1)\<close>, one value per row, is the shape on which axis 0 enumerates the
  values of the sample: the sort orders them, and the endpoint assignments address the
  first and the last value.
\<close>

lemma np_random_normal_column:
  "fst (np_random_normal (L, 1) g) = map (\<lambda>x. [x]) (map g [0..<L])"
  by (simp add: np_random_normal_def o_def)

lemma np_sort_axis0_column:
  "np_sort_axis0 (map (\<lambda>x. [x]) xs) = map (\<lambda>x. [x]) (sort xs)"
proof (cases "xs = []")
  case True
  then show ?thesis by (simp add: np_sort_axis0_def)
next
  case False
  let ?a = "map (\<lambda>x. [x]) xs"
  have ne: "?a \<noteq> []" using False by simp
  have hd: "length (hd ?a) = 1" using False by (simp add: hd_map)
  have col: "column ?a 0 = xs" by (simp add: column_def o_def)
  have "map (\<lambda>i. [sort xs ! i]) [0..<length (sort xs)] = map (\<lambda>x. [x]) (sort xs)"
    by (rule nth_equalityI) simp_all
  then show ?thesis
    unfolding np_sort_axis0_nonempty [OF ne] hd by (simp add: col)
qed

lemma concat_column: "concat (map (\<lambda>x. [f x]) xs) = map f xs"
  by (induction xs) simp_all

lemma set_row_column:
  "i < length zs \<Longrightarrow>
   set_row (map (\<lambda>z. [Finite z]) zs) (int i) (Finite a) =
     Inr (map (\<lambda>z. [Finite z]) (zs[i := a]))"
  by (simp add: set_row_def map_update)

lemma shape_drawn_column:
  assumes ne: "xs \<noteq> []" and diff: "Min (set xs) < Max (set xs)"
  shows "shape_drawn (map (\<lambda>x. [x]) xs) =
    Inr (map (\<lambda>z. [Finite z])
      ((map (\<lambda>x. (x - Min (set xs)) / (Max (set xs) - Min (set xs))) (sort xs))
         [0 := 1 / 10000, length xs - 1 := 999 / 1000]))"
proof -
  define mn where "mn = Min (set xs)"
  define mx where "mx = Max (set xs)"
  define s where "s = sort xs"
  have s_set: "set s = set xs" and s_len: "length s = length xs"
    by (simp_all add: s_def)
  have s_ne: "s \<noteq> []"
    using ne s_len by (cases s) simp_all
  have d: "mx - mn \<noteq> 0" using diff by (simp add: mn_def mx_def)
  have sorted: "np_sort_axis0 (map (\<lambda>x. [x]) xs) = map (\<lambda>x. [x]) s"
    by (simp add: np_sort_axis0_column s_def)
  have amin: "np_amin (map (\<lambda>x. [x]) s) = Inr mn"
    using s_ne by (simp add: np_amin_ok concat_column [of "\<lambda>x. x", simplified] s_set mn_def)
  have new: "map (map (\<lambda>x. x - mn)) (map (\<lambda>x. [x]) s) = map (\<lambda>x. [x - mn]) s"
    by (simp add: o_def)
  have "Max ((\<lambda>x. x - mn) ` set xs) = Max (set xs) - mn"
    using ne by (intro mono_Max_commute [symmetric] monoI) simp_all
  then have amax: "np_amax (map (\<lambda>x. [x - mn]) s) = Inr (mx - mn)"
    using s_ne by (simp add: np_amax_ok concat_column s_set mx_def)
  define zs where "zs = map (\<lambda>x. (x - mn) / (mx - mn)) s"
  have shaped: "map (map (\<lambda>x. np_div x (mx - mn))) (map (\<lambda>x. [x - mn]) s) =
      map (\<lambda>z. [Finite z]) zs"
    using d by (simp add: o_def np_div_def zs_def)
  have zs_len: "length zs = length xs" by (simp add: zs_def s_len)
  have pos: "0 < length xs" using ne by simp
  have first: "set_row (map (\<lambda>z. [Finite z]) zs) 0 (Finite (1 / 10000)) =
      Inr (map (\<lambda>z. [Finite z]) (zs[0 := 1 / 10000]))"
    using set_row_column [of 0 zs "1 / 10000"] pos zs_len by simp
  have idx: "int (length (map (\<lambda>z. [Finite z]) (zs[0 := 1 / 10000]))) - 1 =
      int (length xs - 1)"
    using ne zs_len by (cases xs) simp_all
  have last: "set_row (map (\<lambda>z. [Finite z]) (zs[0 := 1 / 10000]))
        (int (length (map (\<lambda>z. [Finite z]) (zs[0 := 1 / 10000]))) - 1) (Finite (999 / 1000)) =
      Inr (map (\<lambda>z. [Finite z]) (zs[0 := 1 / 10000, length xs - 1 := 999 / 1000]))"
    unfolding idx using pos zs_len by (intro set_row_column) simp
  show ?thesis
    unfolding shape_drawn_def Let_def sorted
    by (simp only: amin new amax shaped sum.case first last
        zs_def [symmetric] s_def [symmetric] mn_def [symmetric] mx_def [symmetric])
qed

lemma fst_get_normal_shaped_array:
  "fst (get_normal_shaped_array shape g) = shape_drawn (fst (np_random_normal shape g))"
  by (simp add: get_normal_shaped_array_def split: prod.splits)

text \<open>
  Claim C1: for a noise draw of length \<open>L \<ge> 2\<close> the shaped sample has length \<open>L\<close>, every
  value lies in \<open>[1e-4, 0.999]\<close>, interior values strictly between 0 and 1, the first
  value is 1e-4, the last is 0.999, and the values are non-decreasing.

  The endpoints are overwritten, the interior values are not clamped. On the draw
  \<open>0, 1e-4, 2\<close> the rescaled interior value is \<open>5e-5\<close>: it is below 1e-4, so it is
  outside \<open>[1e-4, 0.999]\<close> and smaller than the value before it.
\<close>

theorem interior_value_below_first:
  "fst (get_normal_shaped_array (3, 1) (\<lambda>k. [0, 1 / 10000, 2] ! k)) =
     Inr [[Finite (1 / 10000)], [Finite (1 / 20000)], [Finite (999 / 1000)]] \<and>
   (1 / 20000 :: real) < 1 / 10000"
  by (simp add: get_normal_shaped_array_def np_random_normal_def shape_drawn_def
      np_sort_axis0_def column_def np_amin_def np_amax_def np_div_def set_row_def upt_rec)

text \<open>
  Claim C1, amended: for a noise draw of \<open>L \<ge> 2\<close> values enumerated along axis 0
  (shape \<open>(L, 1)\<close>) that are not all equal, the shaped sample has length \<open>L\<close>, its first
  value is 1e-4 and its last is 0.999, and its interior values lie in \<open>[0, 1]\<close> and are
  non-decreasing among themselves. What the shape \<open>(1, L)\<close> and a draw of equal values
  give is stated in the subsections above.
\<close>

theorem column_draw_shaped:
  assumes "2 \<le> L" and "\<exists>i<L. \<exists>j<L. g i \<noteq> g j"
  shows "\<exists>zs. fst (get_normal_shaped_array (L, 1) g) = Inr (map (\<lambda>z. [Finite z]) zs) \<and>
           length zs = L \<and> zs ! 0 = 1 / 10000 \<and> zs ! (L - 1) = 999 / 1000 \<and>
           (\<forall>i. 0 < i \<and> i < L - 1 \<longrightarrow> 0 \<le> zs ! i \<and> zs ! i \<le> 1) \<and>
           (\<forall>i j. 0 < i \<and> i \<le> j \<and> j < L - 1 \<longrightarrow> zs ! i \<le> zs ! j)"
proof -
  define xs where "xs = map g [0..<L]"
  define mn where "mn = Min (set xs)"
  define mx where "mx = Max (set xs)"
  define s where "s = sort xs"
  define zs where
    "zs = (map (\<lambda>x. (x - mn) / (mx - mn)) s)[0 := 1 / 10000, L - 1 := 999 / 1000]"
  have len: "length xs = L" by (simp add: xs_def)
  have ne: "xs \<noteq> []" using assms(1) len by (cases xs) simp_all
  have bounds: "mn \<le> x \<and> x \<le> mx" if "x \<in> set xs" for x
    using that by (simp add: mn_def mx_def)
  from assms(2) obtain i j where ij: "i < L" "j < L" "g i \<noteq> g j" by blast
  then have "g i \<in> set xs" "g j \<in> set xs" by (simp_all add: xs_def)
  then have "mn \<le> g i" "g i \<le> mx" "mn \<le> g j" "g j \<le> mx"
    using bounds by simp_all
  with ij(3) have diff: "mn < mx" by linarith
  have s_len: "length s = L" and s_set: "set s = set xs" and s_sorted: "sorted s"
    by (simp_all add: s_def len)
  have "fst (get_normal_shaped_array (L, 1) g) = shape_drawn (map (\<lambda>x. [x]) xs)"
    by (simp only: fst_get_normal_shaped_array np_random_normal_column xs_def)
  also have "\<dots> = Inr (map (\<lambda>z. [Finite z]) zs)"
    using shape_drawn_column [OF ne] diff
    by (simp add: zs_def mn_def mx_def s_def len)
  finally have res: "fst (get_normal_shaped_array (L, 1) g) = Inr (map (\<lambda>z. [Finite z]) zs)" .
  have zs_len: "length zs = L" by (simp add: zs_def s_len)
  have first: "zs ! 0 = 1 / 10000"
    using assms(1) by (simp add: zs_def s_len nth_list_update)
  have last: "zs ! (L - 1) = 999 / 1000"
    using assms(1) by (simp add: zs_def s_len)
  have inner: "zs ! k = (s ! k - mn) / (mx - mn)" if "0 < k" "k < L - 1" for k
    using that by (simp add: zs_def s_len)
  have range: "0 \<le> zs ! k \<and> zs ! k \<le> 1" if "0 < k" "k < L - 1" for k
  proof -
    have "s ! k \<in> set xs" using that s_len s_set nth_mem [of k s] by simp
    then have "mn \<le> s ! k" "s ! k \<le> mx" using bounds by simp_all
    then show ?thesis using diff by (simp add: inner [OF that])
  qed
  have mono: "zs ! a \<le> zs ! b" if "0 < a" "a \<le> b" "b < L - 1" for a b
  proof -
    have "s ! a \<le> s ! b"
      using that s_len by (intro sorted_nth_mono [OF s_sorted]) simp_all
    then have "(s ! a - mn) / (mx - mn) \<le> (s ! b - mn) / (mx - mn)"
      using diff by (intro divide_right_mono) simp_all
    then show ?thesis using that by (simp add: inner)
  qed
  from res zs_len first last range mono show ?thesis by blast
qed

theorem column_draw_shaped_witness:
  "(2::nat) \<le> 3 \<and> (\<exists>i<3. \<exists>j<3. real i \<noteq> real j) \<and>
   (\<exists>zs. fst (get_normal_shaped_array (3, 1) real) = Inr (map (\<lambda>z. [Finite z]) zs) \<and>
      length zs = 3 \<and> zs ! 0 = 1 / 10000 \<and> zs ! 2 = 999 / 1000 \<and>
      0 \<le> zs ! 1 \<and> zs ! 1 \<le> 1)"
proof -
  have h1: "(2::nat) \<le> 3" by simp
  have "(0::nat) < 3 \<and> (1::nat) < 3 \<and> real 0 \<noteq> real 1" by simp
  then have h2: "\<exists>i<3. \<exists>j<3. real i \<noteq> real j" by blast
  from column_draw_shaped [OF h1 h2] obtain zs where
    "fst (get_normal_shaped_array (3, 1) real) = Inr (map (\<lambda>z. [Finite z]) zs)"
    "length zs = 3" "zs ! 0 = 1 / 10000" "zs ! (3 - 1) = 999 / 1000"
    "\<forall>i. 0 < i \<and> i < 3 - 1 \<longrightarrow> 0 \<le> zs ! i \<and> zs ! i \<le> 1"
    by blast
  then show ?thesis using h1 h2 by auto
qed

subsection \<open>Several shaped arrays\<close>

lemma snd_get_normal_shaped_array:
  "snd (get_normal_shaped_array shape g) = (\<lambda>k. g (fst shape * snd shape + k))"
  by (cases shape) (simp add: get_normal_shaped_array_def np_random_normal_def)

lemma arrays_loop_rows:
  assumes "\<And>i. i < n \<Longrightarrow>
    fst (get_normal_shaped_array shape (\<lambda>k. g (i * (fst shape * snd shape) + k))) = Inr (a i)"
  shows "arrays_loop n shape acc g =
     (Inr (acc @ map a [0..<n]), (\<lambda>k. g (n * (fst shape * snd shape) + k)))"
  using assms
proof (induction n arbitrary: acc g a)
  case 0
  then show ?case by simp
next
  case (Suc n)
  define m where "m = fst shape * snd shape"
  have shift: "(\<lambda>k. g (m + (i * m + k))) = (\<lambda>k. g (Suc i * m + k))" for i
    by (simp add: add.assoc)
  have "fst (get_normal_shaped_array shape g) = Inr (a 0)"
    using Suc.prems [of 0] by simp
  then have step: "get_normal_shaped_array shape g = (Inr (a 0), (\<lambda>k. g (m + k)))"
    by (simp add: prod_eq_iff snd_get_normal_shaped_array m_def)
  have "arrays_loop n shape (acc @ [a 0]) (\<lambda>k. g (m + k)) =
      (Inr ((acc @ [a 0]) @ map (\<lambda>i. a (Suc i)) [0..<n]),
       (\<lambda>k. g (m + (n * (fst shape * snd shape) + k))))"
  proof (rule Suc.IH)
    fix i assume "i < n"
    then have "fst (get_normal_shaped_array shape (\<lambda>k. g (Suc i * m + k))) = Inr (a (Suc i))"
      unfolding m_def by (intro Suc.prems) simp
    then show "fst (get_normal_shaped_array shape
        (\<lambda>k. g (m + (i * (fst shape * snd shape) + k)))) = Inr (a (Suc i))"
      by (simp only: shift m_def [symmetric])
  qed
  then have IH: "arrays_loop n shape (acc @ [a 0]) (\<lambda>k. g (m + k)) =
      (Inr ((acc @ [a 0]) @ map (\<lambda>i. a (Suc i)) [0..<n]), (\<lambda>k. g (Suc n * m + k)))"
    by (simp only: shift m_def [symmetric])
  have "map a [0..<Suc n] = a 0 # map (\<lambda>i. a (Suc i)) [0..<n]"
    by (simp add: upt_conv_Cons map_Suc_upt [symmetric] del: upt_Suc)
  then show ?case
    unfolding m_def [symmetric] by (simp add: step IH del: upt_Suc mult_Suc)
qed

lemma concat_replicate_singleton: "concat (replicate n [r]) = replicate n r"
  by (induction n) simp_all

lemma concat_replicate_replicate: "concat (replicate n (replicate L v)) = replicate (n * L) v"
  by (induction n) (simp_all add: replicate_add)

lemma np_reshape2_replicate:
  "np_reshape2 (replicate (n * L) v) n L = Inr (replicate n (replicate L v))"
proof -
  have "take L (drop (i * L) (replicate (n * L) v)) = replicate L v" if "i < n" for i
  proof -
    have "Suc i * L \<le> n * L" using that by (intro mult_le_mono1) simp
    then have "L \<le> n * L - i * L" by simp
    then show ?thesis by (simp add: min_def)
  qed
  then have "map (\<lambda>i. take L (drop (i * L) (replicate (n * L) v))) [0..<n] =
      replicate n (replicate L v)"
    by (simp add: map_replicate_const [of "replicate L v" "[0..<n]", simplified, symmetric])
  then show ?thesis by (simp add: np_reshape2_def)
qed

lemma get_normal_shaped_arrays_single_row:
  assumes "1 \<le> L"
  shows "fst (get_normal_shaped_arrays n (1, L) g) =
    Inr (replicate n (replicate L (Finite (999 / 1000))))"
proof -
  let ?row = "replicate L (Finite (999 / 1000))"
  have draws: "fst (get_normal_shaped_array (1, L)
      (\<lambda>k. g (i * (fst (1 :: nat, L) * snd (1 :: nat, L)) + k))) = Inr [?row]" for i
    using get_normal_shaped_array_single_row [OF assms] by simp
  have loop: "arrays_loop n (1, L) [] g = (Inr (replicate n [?row]), (\<lambda>k. g (n * L + k)))"
    using arrays_loop_rows [where n = n and shape = "(1, L)" and g = g
        and a = "\<lambda>i. [?row]" and acc = "[]", OF draws]
    by (simp add: map_replicate_const)
  show ?thesis
    by (simp add: get_normal_shaped_arrays_def loop concat_replicate_singleton
        concat_replicate_replicate np_reshape2_replicate del: One_nat_def)
qed

lemma generator_training_set_value:
  "fst (generator_training_set g) =
     Inr (replicate 100000 (replicate 16 (Finite (999 / 1000))), replicate 100000 [0, 1])"
proof -
  have "fst (get_normal_shaped_arrays 100000 (1, 16) g) =
      Inr (replicate 100000 (replicate 16 (Finite (999 / 1000))))"
    by (rule get_normal_shaped_arrays_single_row) simp
  moreover obtain r g' where "get_normal_shaped_arrays 100000 (1, 16) g = (r, g')"
    by (cases "get_normal_shaped_arrays 100000 (1, 16) g")
  ultimately show ?thesis
    by (simp add: generator_training_set_def del: One_nat_def)
qed

subsection \<open>The generator's latent batch\<close>

text \<open>
  Claim C8: every latent vector fed to the generator-training phase is a length-16
  sequence of unmodified standard-normal draws.

  The batch comes from \<^verbatim>\<open>get_normal_shaped_arrays(100000, (1, 16))\<close>, so every row has
  been through the shaper. With the source yielding \<open>0, 1, 2, \<dots>\<close> the first draw is
  \<open>0, \<dots>, 15\<close> and the first latent vector is not.
\<close>

theorem generator_input_not_the_draw:
  "fst (generator_training_set real) =
     Inr (replicate 100000 (replicate 16 (Finite (999 / 1000))), replicate 100000 [0, 1]) \<and>
   fst (np_random_normal (1, 16) real) = [map real [0..<16]] \<and>
   replicate 16 (Finite (999 / 1000)) \<noteq> map (\<lambda>x. Finite (real x)) [0..<16]"
proof -
  have "replicate 16 (Finite (999 / 1000)) ! 0 \<noteq> map (\<lambda>x. Finite (real x)) [0..<16] ! 0"
    by simp
  then have "replicate 16 (Finite (999 / 1000)) \<noteq> map (\<lambda>x. Finite (real x)) [0..<16]"
    by metis
  moreover have "fst (np_random_normal (1, 16) real) = [map real [0..<16]]"
    by (simp add: np_random_normal_single_row del: One_nat_def)
  ultimately show ?thesis
    by (simp only: generator_training_set_value simp_thms)
qed

text \<open>
  Claim C8, amended: the batch handed to \<^verbatim>\<open>train_generator\<close> has 100000 rows of length
  16, row \<open>i\<close> being the shaper's output on the \<open>i\<close>-th draw of 16 values (not the draw
  itself), with 100000 targets \<open>(0, 1)\<close>; no error is raised on the way.
\<close>

theorem generator_input_is_shaper_output:
  "\<exists>X. fst (generator_training_set g) = Inr (X, replicate 100000 [0, 1]) \<and>
        length X = 100000 \<and>
        (\<forall>i<100000. length (X ! i) = 16 \<and>
           fst (get_normal_shaped_array (1, 16) (\<lambda>k. g (i * 16 + k))) = Inr [X ! i])"
proof -
  let ?X = "replicate 100000 (replicate 16 (Finite (999 / 1000)))"
  have "fst (generator_training_set g) = Inr (?X, replicate 100000 [0, 1])"
    by (rule generator_training_set_value)
  moreover have "length ?X = 100000" by simp
  moreover have "length (?X ! i) = 16 \<and>
      fst (get_normal_shaped_array (1, 16) (\<lambda>k. g (i * 16 + k))) = Inr [?X ! i]"
    if "i < 100000" for i
    using that get_normal_shaped_array_single_row [of 16 "\<lambda>k. g (i * 16 + k)"]
    by simp
  ultimately show ?thesis by blast
qed

theorem generator_input_is_shaper_output_witness:
  "\<exists>X. fst (generator_training_set real) = Inr (X, replicate 100000 [0, 1]) \<and>
        length X = 100000 \<and> length (X ! 7) = 16 \<and>
        fst (get_normal_shaped_array (1, 16) (\<lambda>k. real (7 * 16 + k))) = Inr [X ! 7]"
proof -
  from generator_input_is_shaper_output [of real] obtain X where
    X: "fst (generator_training_set real) = Inr (X, replicate 100000 [0, 1])"
      "length X = 100000"
    and rows: "\<forall>i<100000. length (X ! i) = 16 \<and>
      fst (get_normal_shaped_array (1, 16) (\<lambda>k. real (i * 16 + k))) = Inr [X ! i]"
    by blast
  have "(7::nat) < 100000" by simp
  with rows have "length (X ! 7) = 16 \<and>
      fst (get_normal_shaped_array (1, 16) (\<lambda>k. real (7 * 16 + k))) = Inr [X ! 7]"
    by blast
  with X show ?thesis by blast
qed

section \<open>Properties of the dataset assembler\<close>

subsection \<open>The loop in closed form\<close>

lemma assemble_loop_enough:
  "length nsd \<le> length mnist \<Longrightarrow> i \<le> length nsd \<Longrightarrow>
   assemble_loop i nsd mnist X y =
     Inr (X @ concat (map (\<lambda>k. [nsd ! k, mnist ! k]) [i..<length nsd]),
          y @ concat (replicate (length nsd - i) [[1, 0], [0, 1]]))"
proof (induction i nsd mnist X y rule: assemble_loop.induct)
  case (1 i nsd mnist X y)
  show ?case
  proof (cases "i < length nsd")
    case True
    with "1.prems" have m: "i < length mnist" by simp
    have "assemble_loop i nsd mnist X y =
        assemble_loop (Suc i) nsd mnist (X @ [nsd ! i, mnist ! i]) (y @ [[1, 0], [0, 1]])"
      using True m by (subst assemble_loop.simps) simp
    also have "\<dots> =
        Inr ((X @ [nsd ! i, mnist ! i]) @ concat (map (\<lambda>k. [nsd ! k, mnist ! k]) [Suc i..<length nsd]),
             (y @ [[1, 0], [0, 1]]) @ concat (replicate (length nsd - Suc i) [[1, 0], [0, 1]]))"
      using True m "1.prems" by (intro "1.IH") simp_all
    also have "[i..<length nsd] = i # [Suc i..<length nsd]"
      using True by (simp add: upt_conv_Cons)
    moreover have "length nsd - i = Suc (length nsd - Suc i)"
      using True by simp
    ultimately show ?thesis by simp
  next
    case False
    then show ?thesis
      using "1.prems" by (subst assemble_loop.simps) simp
  qed
qed

lemma assemble_loop_short:
  "length mnist < length nsd \<Longrightarrow> i \<le> length mnist \<Longrightarrow>
   assemble_loop i nsd mnist X y = Inl IndexError"
proof (induction i nsd mnist X y rule: assemble_loop.induct)
  case (1 i nsd mnist X y)
  show ?case
  proof (cases "i < length mnist")
    case True
    then show ?thesis
      using "1.prems" "1.IH" by (subst assemble_loop.simps) simp
  next
    case False
    then show ?thesis
      using "1.prems" by (subst assemble_loop.simps) simp
  qed
qed

lemma pairs_zip:
  "length nsd \<le> length mnist \<Longrightarrow>
   map (\<lambda>k. [nsd ! k, mnist ! k]) [0..<length nsd] = map (\<lambda>(s, r). [s, r]) (zip nsd mnist)"
  by (rule nth_equalityI) simp_all

lemma length_concat_pairs: "length (concat (map (\<lambda>k. [a k, b k]) [0..<n])) = 2 * n"
  by (induction n) simp_all

lemma nth_concat_pairs:
  "k < n \<Longrightarrow>
   concat (map (\<lambda>k. [a k, b k]) [0..<n]) ! (2 * k) = a k \<and>
   concat (map (\<lambda>k. [a k, b k]) [0..<n]) ! (2 * k + 1) = b k"
proof (induction n)
  case 0
  then show ?case by simp
next
  case (Suc n)
  show ?case
  proof (cases "k < n")
    case True
    then show ?thesis
      using Suc.IH by (simp add: nth_append length_concat_pairs)
  next
    case False
    with Suc.prems have "k = n" by simp
    then show ?thesis
      by (simp add: nth_append length_concat_pairs)
  qed
qed

lemma labels_as_pairs:
  "concat (replicate n [[1, 0], [0, 1 :: int]]) = concat (map (\<lambda>k. [[1, 0], [0, 1]]) [0..<n])"
  by (simp add: map_replicate_const)

lemma get_discriminator_train_set_enough:
  "length nsd \<le> length mnist \<Longrightarrow>
   get_discriminator_train_set nsd mnist =
     Inr (concat (map (\<lambda>(s, r). [s, r]) (zip nsd mnist)),
          concat (replicate (length nsd) [[1, 0], [0, 1]]))"
  by (simp add: get_discriminator_train_set_def assemble_loop_enough pairs_zip)

subsection \<open>Rounding to float64\<close>

lemma pow2_pos: "0 < pow2 k"
  by (simp add: pow2_def)

lemma ulp_pos: "0 < ulp x"
  by (simp add: ulp_def pow2_pos)

lemma round_half_even_ge_floor: "\<lfloor>y\<rfloor> \<le> round_half_even y"
  by (simp add: round_half_even_def Let_def)

lemma round_half_even_ge:
  assumes "of_int k \<le> y"
  shows "k \<le> round_half_even y"
proof -
  have "k \<le> \<lfloor>y\<rfloor>" using assms by (simp add: le_floor_iff)
  also have "\<dots> \<le> round_half_even y" by (rule round_half_even_ge_floor)
  finally show ?thesis .
qed

lemma round_half_even_nonpos: "y \<le> 0 \<Longrightarrow> round_half_even y \<le> 0"
proof -
  assume y: "y \<le> 0"
  show ?thesis
  proof (cases "y = 0")
    case True
    then show ?thesis by (simp add: round_half_even_def)
  next
    case False
    with y have "y < 0" by simp
    then have "\<lfloor>y\<rfloor> \<le> - 1" by (simp add: floor_le_iff)
    then show ?thesis by (simp add: round_half_even_def Let_def)
  qed
qed

lemma round64_not_nan: "round64 x \<noteq> NaN"
  by (simp add: round64_def Let_def)

lemma round64_nonneg:
  assumes "0 \<le> x"
  shows "round64 x \<noteq> NegInf" and "round64 x = Finite p \<Longrightarrow> 0 \<le> p"
proof -
  have "0 \<le> x / ulp x" using assms ulp_pos [of x] by simp
  then have "0 \<le> round_half_even (x / ulp x)"
    using round_half_even_ge [of 0 "x / ulp x"] by simp
  then have r: "0 \<le> of_int (round_half_even (x / ulp x)) * ulp x"
    using ulp_pos [of x] by simp
  then show "round64 x \<noteq> NegInf"
    by (simp add: round64_def Let_def)
  show "round64 x = Finite p \<Longrightarrow> 0 \<le> p"
    using r by (auto simp: round64_def Let_def split: if_splits)
qed

lemma round64_nonpos:
  assumes "x \<le> 0"
  shows "round64 x \<noteq> PosInf" and "round64 x = Finite p \<Longrightarrow> p \<le> 0"
proof -
  have "x / ulp x \<le> 0" using assms ulp_pos [of x] by (simp add: divide_nonpos_pos)
  then have "round_half_even (x / ulp x) \<le> 0"
    by (rule round_half_even_nonpos)
  then have r: "of_int (round_half_even (x / ulp x)) * ulp x \<le> 0"
    using ulp_pos [of x] by (simp add: mult_nonpos_nonneg)
  then show "round64 x \<noteq> PosInf"
    by (simp add: round64_def Let_def)
  show "round64 x = Finite p \<Longrightarrow> p \<le> 0"
    using r by (auto simp: round64_def Let_def split: if_splits)
qed

lemma bit_length_lower: "0 < n \<Longrightarrow> 2 ^ (bit_length n - 1) \<le> n"
proof (induction n rule: bit_length.induct)
  case (1 n)
  show ?case
  proof (cases "n div 2 = 0")
    case True
    with "1.prems" have "n = 1" by presburger
    then show ?thesis by (simp add: bit_length.simps)
  next
    case False
    with "1.prems" have pos: "0 < n div 2" by presburger
    then have IH: "2 ^ (bit_length (n div 2) - 1) \<le> n div 2"
      using "1.prems" by (intro "1.IH") simp_all
    have b: "bit_length n = Suc (bit_length (n div 2))"
      using "1.prems" by (subst bit_length.simps) simp
    have "0 < bit_length (n div 2)"
      using pos by (subst bit_length.simps) simp
    then have "(2::int) ^ (bit_length n - 1) = 2 * 2 ^ (bit_length (n div 2) - 1)"
      by (cases "bit_length (n div 2)") (simp_all add: b)
    also have "\<dots> \<le> 2 * (n div 2)" using IH by simp
    also have "\<dots> \<le> n" by presburger
    finally show ?thesis .
  qed
qed

lemma round64_value:
  "round64 x = Finite p \<Longrightarrow> x \<noteq> 0 \<Longrightarrow> p = of_int (round_half_even (x / ulp x)) * ulp x"
  by (auto simp: round64_def Let_def split: if_splits)

lemma rounded_ge_multiple:
  assumes "of_int k * ulp x \<le> x"
  shows "of_int k * ulp x \<le> of_int (round_half_even (x / ulp x)) * ulp x"
proof -
  have "of_int k \<le> x / ulp x"
    using assms ulp_pos [of x] by (simp add: pos_le_divide_eq)
  then have "k \<le> round_half_even (x / ulp x)" by (rule round_half_even_ge)
  then have "real_of_int k \<le> real_of_int (round_half_even (x / ulp x))"
    by (simp only: of_int_le_iff)
  then show ?thesis
    using ulp_pos [of x] by (simp only: mult_le_cancel_right_pos)
qed

lemma rounded_ge_value:
  assumes "y = of_int k * ulp x" and "y \<le> x"
  shows "y \<le> of_int (round_half_even (x / ulp x)) * ulp x"
  using rounded_ge_multiple [of k x] assms by (simp only:)

lemma ulp_forms:
  assumes "1 \<le> x"
  shows "(\<exists>j. ulp x = 1 / 2 ^ j) \<or> (\<exists>j. 1 \<le> j \<and> ulp x = 2 ^ j \<and> 2 ^ 52 * 2 ^ j \<le> x)"
proof -
  define b where "b = bit_length \<lfloor>x\<rfloor>"
  have "binade x = int b - 1"
    using assms by (simp add: binade_def Let_def b_def)
  moreover have "- 1022 \<le> int b - 1" by simp
  ultimately have u: "ulp x = pow2 (int b - 53)" by (simp add: ulp_def)
  show ?thesis
  proof (cases "b \<le> 53")
    case True
    have "ulp x = 1 / 2 ^ (53 - b)"
    proof (cases "b = 53")
      case True
      then show ?thesis by (simp add: u pow2_def)
    next
      case False
      with \<open>b \<le> 53\<close> have "int b - 53 < 0" "nat (53 - int b) = 53 - b" by simp_all
      then show ?thesis by (simp add: u pow2_def)
    qed
    then show ?thesis by blast
  next
    case False
    then have b54: "54 \<le> b" by simp
    define j where "j = b - 53"
    have uj: "ulp x = 2 ^ j"
      using b54 by (simp add: u pow2_def j_def nat_diff_distrib')
    have "0 < \<lfloor>x\<rfloor>" using assms by simp
    from bit_length_lower [OF this] have "(2::int) ^ (b - 1) \<le> \<lfloor>x\<rfloor>"
      by (simp add: b_def)
    then have "real_of_int (2 ^ (b - 1)) \<le> x"
      by (simp add: le_floor_iff)
    then have lowx: "(2::real) ^ (b - 1) \<le> x" by simp
    have split: "b - 1 = 52 + j" using b54 by (simp add: j_def)
    have "(2::real) ^ (b - 1) = 2 ^ 52 * 2 ^ j"
      by (simp only: split power_add)
    with lowx have "(2::real) ^ 52 * 2 ^ j \<le> x" by (simp only:)
    moreover have "1 \<le> j" using b54 by (simp add: j_def)
    ultimately show ?thesis using uj by blast
  qed
qed

lemma rounded_ge_pow2:
  assumes x: "2 ^ N \<le> x"
  shows "(2::real) ^ N \<le> of_int (round_half_even (x / ulp x)) * ulp x"
proof -
  have "(1::real) \<le> 2 ^ N" by simp
  with x have x1: "1 \<le> x" by linarith
  from ulp_forms [OF x1] consider
    (small) j where "ulp x = 1 / 2 ^ j"
  | (large) j where "1 \<le> j" "ulp x = 2 ^ j" "2 ^ 52 * 2 ^ j \<le> x"
    by blast
  then show ?thesis
  proof cases
    case small
    have "(2::real) ^ N = real_of_int (2 ^ N * 2 ^ j) * ulp x" by (simp add: small)
    then show ?thesis using x by (rule rounded_ge_value)
  next
    case large
    show ?thesis
    proof (cases "j \<le> N")
      case True
      have "(2::real) ^ N = 2 ^ (N - j) * 2 ^ j"
        using True by (simp add: power_add [symmetric])
      then have "(2::real) ^ N = real_of_int (2 ^ (N - j)) * ulp x" by (simp add: large(2))
      then show ?thesis using x by (rule rounded_ge_value)
    next
      case False
      then have "(2::real) ^ N \<le> 2 ^ j" by (intro power_increasing) simp_all
      also have "\<dots> \<le> 2 ^ 52 * 2 ^ j" by simp
      finally have "(2::real) ^ N \<le> real_of_int (2 ^ 52) * ulp x" by (simp add: large(2))
      moreover have "real_of_int (2 ^ 52) * ulp x \<le> x" using large by simp
      ultimately show ?thesis
        using rounded_ge_multiple [of "2 ^ 52" x] by linarith
    qed
  qed
qed

lemma round64_overflow: "2 ^ 1024 \<le> x \<Longrightarrow> round64 x = PosInf"
proof -
  assume x: "2 ^ 1024 \<le> x"
  have "(0::real) < 2 ^ 1024" by simp
  with x have "x \<noteq> 0" by linarith
  moreover have "(2::real) ^ 1024 \<le> of_int (round_half_even (x / ulp x)) * ulp x"
    using x by (rule rounded_ge_pow2)
  ultimately show ?thesis by (simp only: round64_def Let_def if_False if_True)
qed

lemma round64_ge_nat:
  assumes n: "n < 2 ^ 53" and x: "real n \<le> x" and p: "round64 x = Finite p"
  shows "real n \<le> p"
proof (cases "n = 0")
  case True
  then show ?thesis
    using round64_nonneg(2) [OF _ p] x by simp
next
  case False
  then have x1: "1 \<le> x" using x by linarith
  then have x0: "x \<noteq> 0" by simp
  have pm: "p = of_int (round_half_even (x / ulp x)) * ulp x"
    by (rule round64_value [OF p x0])
  from ulp_forms [OF x1] consider
    (small) j where "ulp x = 1 / 2 ^ j"
  | (large) j where "1 \<le> j" "ulp x = 2 ^ j" "2 ^ 52 * 2 ^ j \<le> x"
    by blast
  then show ?thesis
  proof cases
    case small
    have "real n = real_of_int (int n * 2 ^ j) * ulp x" by (simp add: small)
    then show ?thesis unfolding pm using x by (rule rounded_ge_value)
  next
    case large
    have "real n < 2 ^ 53"
      using n by (metis of_nat_less_iff of_nat_numeral of_nat_power)
    moreover have "(2::real) ^ 53 \<le> 2 ^ 52 * 2 ^ j"
    proof -
      have "(2::real) ^ 1 \<le> 2 ^ j" using large(1) by (intro power_increasing) simp_all
      then have "(2::real) ^ 52 * 2 ^ 1 \<le> 2 ^ 52 * 2 ^ j" by (intro mult_left_mono) simp_all
      then show ?thesis by simp
    qed
    moreover have "real_of_int (2 ^ 52) * ulp x \<le> x" using large by simp
    then have "real_of_int (2 ^ 52) * ulp x \<le> p"
      unfolding pm by (rule rounded_ge_multiple)
    then have "(2::real) ^ 52 * 2 ^ j \<le> p" by (simp add: large(2))
    ultimately show ?thesis by linarith
  qed
qed

lemma trunc_nonpos: "z \<le> 0 \<Longrightarrow> trunc z = \<lceil>z\<rceil>"
  by (cases "z = 0") (simp_all add: trunc_def)

lemma trunc_nonneg: "0 \<le> z \<Longrightarrow> trunc z = \<lfloor>z\<rfloor>"
  by (simp add: trunc_def)

lemma float_mul_Finite: "float_mul a (Finite x) = round64 (a * x)"
  by (simp add: float_mul_def)

text \<open>
  The model against CPython: \<^verbatim>\<open>int(10 * 0.3)\<close> is 3, \<^verbatim>\<open>int(10 * -0.3)\<close> is \<open>- 3\<close> (the
  exact products of the floats are just below 3 in size and round to it),
  \<^verbatim>\<open>int(100 * 0.29)\<close> is 28, \<^verbatim>\<open>int(2 * 1e308)\<close> and \<^verbatim>\<open>int(2 * inf)\<close> raise OverflowError,
  \<^verbatim>\<open>int(2 * nan)\<close> raises ValueError.
\<close>

lemmas float_eval = py_int_def float_mul_def round64_def ulp_def binade_def bit_length.simps
  pow2_def round_half_even_def trunc_def Let_def

lemma float_product_examples:
  "py_int (float_mul 10 (round64 (3 / 10))) = Inr 3"
  "py_int (float_mul 10 (round64 (- 3 / 10))) = Inr (- 3)"
  "py_int (float_mul 100 (round64 (29 / 100))) = Inr 28"
  "py_int (float_mul 2 PosInf) = Inl OverflowError"
  "py_int (float_mul 2 NaN) = Inl ValueError"
  by (simp_all add: float_eval)

lemma float_product_overflow: "py_int (float_mul 2 (Finite (10 ^ 308))) = Inl OverflowError"
proof -
  have "(2::real) ^ 1024 \<le> 2 * 10 ^ 308" by simp
  then have "round64 (2 * 10 ^ 308) = PosInf" by (rule round64_overflow)
  then show ?thesis by (simp add: float_mul_Finite py_int_def)
qed

subsection \<open>The split in closed form\<close>

lemma assemble_loop_lengths:
  assumes "assemble_loop 0 nsd mnist [] [] = Inr (X, y)"
  shows "length y = length X"
proof (cases "length nsd \<le> length mnist")
  case True
  from assemble_loop_enough [OF True, of 0 "[]" "[]"] assms
  have "X = concat (map (\<lambda>k. [nsd ! k, mnist ! k]) [0..<length nsd])"
    and "y = concat (replicate (length nsd) [[1, 0], [0, 1]])"
    by simp_all
  then show ?thesis
    by (simp add: length_concat_pairs labels_as_pairs)
next
  case False
  then have "assemble_loop 0 nsd mnist [] [] = Inl IndexError"
    by (intro assemble_loop_short) simp_all
  with assms show ?thesis by simp
qed

lemma slice_bound_eq_length: "length ys = length xs \<Longrightarrow> slice_bound ys b = slice_bound xs b"
  by (simp add: slice_bound_def)

lemma discriminator_train_test_set_bound:
  assumes "assemble_loop 0 nsd mnist [] [] = Inr (X, y)"
  shows "discriminator_train_test_set nsd mnist f =
    (case py_int (float_mul (real (length X)) f) of
       Inl e \<Rightarrow> Inl e
     | Inr split \<Rightarrow>
         (let k = slice_bound X (- split)
          in Inr (take k X, take k y, drop k X, drop k y)))"
proof -
  have "slice_bound y b = slice_bound X b" for b
    by (rule slice_bound_eq_length) (rule assemble_loop_lengths [OF assms])
  then show ?thesis
    by (simp add: discriminator_train_test_set_def assms Let_def slice_to_def slice_from_def
        split: sum.splits)
qed

lemma discriminator_train_test_set_Finite:
  assumes "assemble_loop 0 nsd mnist [] [] = Inr (X, y)"
    and "float_mul (real (length X)) f = Finite p"
  shows "discriminator_train_test_set nsd mnist f =
    (let k = slice_bound X (- trunc p)
     in Inr (take k X, take k y, drop k X, drop k y))"
  by (simp add: discriminator_train_test_set_bound [OF assms(1)] assms(2) py_int_def)

lemma slice_bound_neg_big: "int (length xs) \<le> s \<Longrightarrow> slice_bound xs (- s) = 0"
  by (simp add: slice_bound_def Let_def)

lemma slice_bound_nonneg: "0 \<le> b \<Longrightarrow> slice_bound xs b = min (nat b) (length xs)"
  unfolding slice_bound_def Let_def by (cases "b \<le> int (length xs)") simp_all

lemma slice_bound_neg: "b < 0 \<Longrightarrow> slice_bound xs b = length xs - nat (- b)"
  unfolding slice_bound_def Let_def
  by (cases "0 \<le> int (length xs) + b") (simp_all add: nat_diff_distrib nat_add_distrib)

lemma split_positive:
  assumes "assemble_loop 0 nsd mnist [] [] = Inr (X, y)"
    and "float_mul (real (length X)) f = Finite p"
    and "1 \<le> p"
  shows "discriminator_train_test_set nsd mnist f =
    (let k = length X - nat \<lfloor>p\<rfloor>
     in Inr (take k X, take k y, drop k X, drop k y))"
proof -
  have "1 \<le> \<lfloor>p\<rfloor>" using assms(3) by (simp add: le_floor_iff)
  then have "- \<lfloor>p\<rfloor> < 0" by simp
  then have "slice_bound X (- \<lfloor>p\<rfloor>) = length X - nat \<lfloor>p\<rfloor>"
    by (simp add: slice_bound_neg)
  moreover have "trunc p = \<lfloor>p\<rfloor>" using assms(3) by (simp add: trunc_nonneg)
  ultimately show ?thesis
    by (simp add: discriminator_train_test_set_Finite [OF assms(1) assms(2)])
qed

text \<open>The spec's example: 100 examples and the fraction 0.1 give 90 and 10.\<close>

lemma split_hundred_tenth:
  assumes "assemble_loop 0 nsd mnist [] [] = Inr (X, y)" and "length X = 100"
  shows "discriminator_train_test_set nsd mnist (round64 (1 / 10)) =
    Inr (take 90 X, take 90 y, drop 90 X, drop 90 y)"
proof -
  have "float_mul (real (length X)) (round64 (1 / 10)) = Finite 10"
    by (simp add: assms(2) float_eval)
  from split_positive [OF assms(1) this] show ?thesis
    by (simp add: assms(2))
qed

lemma split_append:
  assumes "assemble_loop 0 nsd mnist [] [] = Inr (X, y)"
    and "discriminator_train_test_set nsd mnist f = Inr (X_train, y_train, X_test, y_test)"
  shows "X_train @ X_test = X" and "y_train @ y_test = y"
  using assms(2) unfolding discriminator_train_test_set_bound [OF assms(1)]
  by (auto simp: Let_def split: sum.splits)

subsection \<open>Interleaving\<close>

text \<open>
  Claim C4: for inputs of equal length \<open>n\<close> the assembler returns a dataset of length
  \<open>2 n\<close> in which position \<open>2 i\<close> holds \<open>shaped[i]\<close> with label \<open>(1, 0)\<close> and position
  \<open>2 i + 1\<close> holds \<open>real[i]\<close> with label \<open>(0, 1)\<close>. For
  \<^verbatim>\<open>discriminator_train_test_set\<close>, which returns that dataset cut in two, the
  training part followed by the test part is that dataset, whatever the fraction: the
  one other outcome is the error of \<^verbatim>\<open>int\<close> on a product that is infinite or \<open>nan\<close>,
  and the assembly itself never fails.
\<close>

theorem assembler_interleaves:
  assumes "length nsd = n" and "length mnist = n"
  shows "\<exists>X y. get_discriminator_train_set nsd mnist = Inr (X, y) \<and>
           length X = 2 * n \<and> length y = 2 * n \<and>
           (\<forall>i<n. X ! (2 * i) = nsd ! i \<and> y ! (2 * i) = [1, 0] \<and>
                  X ! (2 * i + 1) = mnist ! i \<and> y ! (2 * i + 1) = [0, 1]) \<and>
           (\<forall>f. case py_int (float_mul (real (2 * n)) f) of
                  Inl e \<Rightarrow> discriminator_train_test_set nsd mnist f = Inl e
                | Inr split \<Rightarrow>
                    (\<exists>X_train y_train X_test y_test.
                       discriminator_train_test_set nsd mnist f =
                         Inr (X_train, y_train, X_test, y_test) \<and>
                       X_train @ X_test = X \<and> y_train @ y_test = y))"
proof -
  define X where "X = concat (map (\<lambda>k. [nsd ! k, mnist ! k]) [0..<n])"
  define y :: "int list list" where "y = concat (map (\<lambda>k. [[1, 0], [0, 1]]) [0..<n])"
  have le: "length nsd \<le> length mnist" using assms by simp
  have loop: "assemble_loop 0 nsd mnist [] [] = Inr (X, y)"
    using assemble_loop_enough [OF le, of 0 "[]" "[]"] assms
    by (simp add: X_def y_def labels_as_pairs)
  have "get_discriminator_train_set nsd mnist = Inr (X, y)"
    using loop by (simp add: get_discriminator_train_set_def)
  moreover have len: "length X = 2 * n" "length y = 2 * n"
    by (simp_all add: X_def y_def length_concat_pairs)
  moreover have "X ! (2 * i) = nsd ! i \<and> y ! (2 * i) = [1, 0] \<and>
      X ! (2 * i + 1) = mnist ! i \<and> y ! (2 * i + 1) = [0, 1]" if "i < n" for i
    using nth_concat_pairs [OF that, of "\<lambda>k. nsd ! k" "\<lambda>k. mnist ! k"]
      nth_concat_pairs [OF that, of "\<lambda>k. [1, 0]" "\<lambda>k. [0, 1 :: int]"]
    by (simp add: X_def y_def)
  moreover have "case py_int (float_mul (real (2 * n)) f) of
      Inl e \<Rightarrow> discriminator_train_test_set nsd mnist f = Inl e
    | Inr split \<Rightarrow>
        (\<exists>X_train y_train X_test y_test.
           discriminator_train_test_set nsd mnist f = Inr (X_train, y_train, X_test, y_test) \<and>
           X_train @ X_test = X \<and> y_train @ y_test = y)" for f
    unfolding discriminator_train_test_set_bound [OF loop] len(1)
    by (simp add: Let_def split: sum.splits)
  ultimately show ?thesis by blast
qed

theorem assembler_interleaves_witness:
  "length [10 :: nat, 20] = 2 \<and> length [1 :: nat, 2] = 2 \<and>
   get_discriminator_train_set [10 :: nat, 20] [1, 2] =
     Inr ([10, 1, 20, 2], [[1, 0], [0, 1], [1, 0], [0, 1]])"
proof -
  have ev: "get_discriminator_train_set [10 :: nat, 20] [1, 2] =
      Inr ([10, 1, 20, 2], [[1, 0], [0, 1], [1, 0], [0, 1]])"
    by (simp add: get_discriminator_train_set_def assemble_loop.simps)
  from assembler_interleaves [of "[10 :: nat, 20]" 2 "[1, 2]"]
  obtain X y where "get_discriminator_train_set [10 :: nat, 20] [1, 2] = Inr (X, y)"
    by auto
  with ev show ?thesis by simp
qed

subsection \<open>Inputs of different lengths\<close>

text \<open>
  Claim C6: inputs of different lengths make the assembler fail with ShapeMismatch.

  The code compares no lengths. With more real samples than shaped ones it returns a
  dataset and drops the surplus.
\<close>

theorem longer_real_set_accepted:
  "get_discriminator_train_set [10 :: nat] [1, 2] = Inr ([10, 1], [[1, 0], [0, 1]])"
  by (simp add: get_discriminator_train_set_def assemble_loop.simps)

text \<open>
  Claim C6, amended: with fewer real samples than shaped ones both functions fail with
  the IndexError of \<^verbatim>\<open>mnist_data[i]\<close>. With more real samples than shaped ones neither
  signals the mismatch: the dataset is the interleaving of the shaped samples with the
  first \<open>len(shaped)\<close> real samples, the surplus is dropped;
  \<^verbatim>\<open>get_discriminator_train_set\<close> returns that dataset with its labels, and
  \<^verbatim>\<open>discriminator_train_test_set\<close> returns that dataset and its labels cut at
  \<open>- split\<close>, for \<open>split\<close> the integer part of the float product of its length and the
  fraction (or the error of \<^verbatim>\<open>int\<close> on that product).
\<close>

theorem mismatched_lengths_behaviour:
  "(length mnist < length nsd \<longrightarrow>
      get_discriminator_train_set nsd mnist = Inl IndexError \<and>
      discriminator_train_test_set nsd mnist f = Inl IndexError) \<and>
   (length nsd < length mnist \<longrightarrow>
      (let X = concat (map (\<lambda>(s, r). [s, r]) (zip nsd mnist));
           y = concat (replicate (length nsd) [[1, 0], [0, 1]])
       in get_discriminator_train_set nsd mnist = Inr (X, y) \<and>
          discriminator_train_test_set nsd mnist f =
            (case py_int (float_mul (real (2 * length nsd)) f) of
               Inl e \<Rightarrow> Inl e
             | Inr split \<Rightarrow>
                 Inr (slice_to X (- split), slice_to y (- split),
                      slice_from X (- split), slice_from y (- split)))))"
proof (intro conjI impI)
  assume short: "length mnist < length nsd"
  then have loop: "assemble_loop 0 nsd mnist [] [] = Inl IndexError"
    by (intro assemble_loop_short) simp_all
  then show "get_discriminator_train_set nsd mnist = Inl IndexError"
    by (simp add: get_discriminator_train_set_def)
  from loop show "discriminator_train_test_set nsd mnist f = Inl IndexError"
    by (simp add: discriminator_train_test_set_def)
next
  assume "length nsd < length mnist"
  then have le: "length nsd \<le> length mnist" by simp
  define X where "X = concat (map (\<lambda>(s, r). [s, r]) (zip nsd mnist))"
  define y :: "int list list" where "y = concat (replicate (length nsd) [[1, 0], [0, 1]])"
  have g: "get_discriminator_train_set nsd mnist = Inr (X, y)"
    unfolding X_def y_def using le by (rule get_discriminator_train_set_enough)
  then have loop: "assemble_loop 0 nsd mnist [] [] = Inr (X, y)"
    by (simp add: get_discriminator_train_set_def)
  have "X = concat (map (\<lambda>k. [nsd ! k, mnist ! k]) [0..<length nsd])"
    by (simp add: X_def pairs_zip [OF le])
  then have len: "length X = 2 * length nsd"
    by (simp only: length_concat_pairs)
  have "discriminator_train_test_set nsd mnist f =
      (case py_int (float_mul (real (2 * length nsd)) f) of
         Inl e \<Rightarrow> Inl e
       | Inr split \<Rightarrow>
           Inr (slice_to X (- split), slice_to y (- split),
                slice_from X (- split), slice_from y (- split)))"
    by (simp add: discriminator_train_test_set_def loop len Let_def split: sum.splits)
  with g show "let X = concat (map (\<lambda>(s, r). [s, r]) (zip nsd mnist));
           y = concat (replicate (length nsd) [[1, 0], [0, 1]])
       in get_discriminator_train_set nsd mnist = Inr (X, y) \<and>
          discriminator_train_test_set nsd mnist f =
            (case py_int (float_mul (real (2 * length nsd)) f) of
               Inl e \<Rightarrow> Inl e
             | Inr split \<Rightarrow>
                 Inr (slice_to X (- split), slice_to y (- split),
                      slice_from X (- split), slice_from y (- split)))"
    by (simp only: Let_def X_def y_def)
qed

theorem mismatched_lengths_behaviour_witness:
  "get_discriminator_train_set [10 :: nat, 20] [1] = Inl IndexError \<and>
   discriminator_train_test_set [10 :: nat, 20] [1] (Finite (1 / 2)) = Inl IndexError \<and>
   get_discriminator_train_set [10 :: nat] [1, 2] = Inr ([10, 1], [[1, 0], [0, 1]]) \<and>
   discriminator_train_test_set [10 :: nat] [1, 2] (Finite (1 / 2)) =
     Inr ([10], [[1, 0]], [1], [[0, 1]]) \<and>
   discriminator_train_test_set [10 :: nat] [1, 2] NaN = Inl ValueError"
  using mismatched_lengths_behaviour [where nsd = "[10 :: nat, 20]" and mnist = "[1]"
      and f = "Finite (1 / 2)"]
    mismatched_lengths_behaviour [where nsd = "[10 :: nat]" and mnist = "[1, 2]"
      and f = "Finite (1 / 2)"]
    mismatched_lengths_behaviour [where nsd = "[10 :: nat]" and mnist = "[1, 2]" and f = NaN]
  by (simp add: Let_def py_int_def float_mul_def round64_def ulp_def binade_def
      bit_length.simps pow2_def round_half_even_def trunc_def slice_to_def slice_from_def
      slice_bound_def)

subsection \<open>The train/test split\<close>

text \<open>
  Claim C5: for every fraction in \<open>[0, 1)\<close> the test set is the last
  \<open>floor(len * fraction)\<close> examples and the training set is the rest.

  When the product \<open>len * fraction\<close> is at least 1 this is what the code returns, for
  the product as float64 arithmetic computes it (\<open>split_positive\<close>). When its integer
  part is 0 the slices are \<^verbatim>\<open>X[:-0]\<close> and \<^verbatim>\<open>X[-0:]\<close>, that is \<^verbatim>\<open>X[:0]\<close> and \<^verbatim>\<open>X[0:]\<close>: on a
  dataset of two examples and the fraction 0.1 (the float64 nearest to one tenth) the
  training set is empty and the test set is the whole dataset, where the claim (and
  the docstring, "10% of the data is used for testing") has a training set of two
  and an empty test set.
\<close>

theorem split_small_fraction_tests_everything:
  "discriminator_train_test_set [10::nat] [1] (round64 (1 / 10)) =
     Inr ([], [], [10, 1], [[1, 0], [0, 1]])"
  by (simp add: discriminator_train_test_set_def assemble_loop.simps py_int_def float_mul_def
      round64_def ulp_def binade_def bit_length.simps pow2_def round_half_even_def trunc_def
      Let_def slice_to_def slice_from_def slice_bound_def)

text \<open>
  Claim C10: with the fraction 0 the split returns an empty training set and the whole
  dataset as the test set.
\<close>

theorem split_fraction_zero:
  assumes "assemble_loop 0 nsd mnist [] [] = Inr (X, y)"
  shows "discriminator_train_test_set nsd mnist (Finite 0) = Inr ([], [], X, y)"
  by (simp add: discriminator_train_test_set_bound [OF assms] py_int_def float_mul_def
      round64_def trunc_def slice_bound_def)

theorem split_fraction_zero_witness:
  "assemble_loop 0 [10::nat, 20] [1, 2] [] [] = Inr ([10, 1, 20, 2], [[1, 0], [0, 1], [1, 0], [0, 1]]) \<and>
   discriminator_train_test_set [10::nat, 20] [1, 2] (Finite 0) =
     Inr ([], [], [10, 1, 20, 2], [[1, 0], [0, 1], [1, 0], [0, 1]])"
proof -
  have h: "assemble_loop 0 [10::nat, 20] [1, 2] [] [] =
      Inr ([10, 1, 20, 2], [[1, 0], [0, 1], [1, 0], [0, 1]])"
    by (simp add: assemble_loop.simps)
  show ?thesis using h split_fraction_zero [OF h] by simp
qed

text \<open>
  Claim C7: a fraction outside \<open>[0, 1)\<close> makes the split fail with InvalidFraction.

  The code checks no range. With the fraction 1.5 it returns a partition.
\<close>

theorem fraction_three_halves_accepted:
  "discriminator_train_test_set [10::nat] [1] (Finite (3 / 2)) =
     Inr ([], [], [10, 1], [[1, 0], [0, 1]])"
  by (simp add: discriminator_train_test_set_def assemble_loop.simps py_int_def float_mul_def
      round64_def ulp_def binade_def bit_length.simps pow2_def round_half_even_def trunc_def
      Let_def slice_to_def slice_from_def slice_bound_def)

text \<open>
  Claim C7, amended: the split checks no range, and what a fraction outside \<open>[0, 1)\<close>
  gives is decided by \<open>p\<close>, the float64 product of the dataset's length and the
  fraction (the dataset having fewer than \<open>2 ^ 53\<close> examples).
  For a fraction of at least 1: when \<open>p\<close> overflows to infinity, the OverflowError of
  \<^verbatim>\<open>int\<close>; otherwise an empty training set and the whole dataset as the test set.
  For a negative fraction: when \<open>p\<close> overflows, the OverflowError of \<^verbatim>\<open>int\<close>; otherwise
  the training set is the first \<open>k\<close> examples and the test set is the rest, with \<open>k\<close>
  the size of \<open>p\<close> truncated towards zero.
  For an infinite fraction: the OverflowError of \<^verbatim>\<open>int\<close>, and on an empty dataset,
  where the product is \<open>nan\<close>, its ValueError. For the fraction \<open>nan\<close>: the ValueError of
  \<^verbatim>\<open>int\<close>.
\<close>

theorem fraction_out_of_range_behaviour:
  assumes "assemble_loop 0 nsd mnist [] [] = Inr (X, y)" and "length X < 2 ^ 53"
  shows "(\<forall>x. 1 \<le> x \<longrightarrow>
            discriminator_train_test_set nsd mnist (Finite x) =
              (if round64 (real (length X) * x) = PosInf then Inl OverflowError
               else Inr ([], [], X, y))) \<and>
         (\<forall>x. x < 0 \<longrightarrow>
            discriminator_train_test_set nsd mnist (Finite x) =
              (case round64 (real (length X) * x) of
                 Finite p \<Rightarrow>
                   (let k = nat (- \<lceil>p\<rceil>)
                    in Inr (take k X, take k y, drop k X, drop k y))
               | PosInf \<Rightarrow> Inl OverflowError
               | NegInf \<Rightarrow> Inl OverflowError
               | NaN \<Rightarrow> Inl ValueError)) \<and>
         discriminator_train_test_set nsd mnist PosInf =
           (if X = [] then Inl ValueError else Inl OverflowError) \<and>
         discriminator_train_test_set nsd mnist NegInf =
           (if X = [] then Inl ValueError else Inl OverflowError) \<and>
         discriminator_train_test_set nsd mnist NaN = Inl ValueError"
proof (intro conjI allI impI)
  fix x :: real
  assume x1: "1 \<le> x"
  define z where "z = real (length X) * x"
  have "real (length X) * 1 \<le> z"
    unfolding z_def using x1 by (intro mult_left_mono) simp_all
  then have nz: "real (length X) \<le> z" by simp
  then have z0: "0 \<le> z" by (rule order_trans [OF of_nat_0_le_iff])
  have "discriminator_train_test_set nsd mnist (Finite x) =
      (if round64 z = PosInf then Inl OverflowError else Inr ([], [], X, y))"
  proof (cases "round64 z")
    case (Finite p)
    have "real (length X) \<le> p"
      using assms(2) nz Finite by (rule round64_ge_nat)
    then have "0 \<le> p" and "int (length X) \<le> \<lfloor>p\<rfloor>"
      by (simp_all add: le_floor_iff order_trans [OF of_nat_0_le_iff])
    then have "slice_bound X (- trunc p) = 0"
      by (simp add: trunc_nonneg slice_bound_neg_big)
    moreover have "float_mul (real (length X)) (Finite x) = Finite p"
      using Finite by (simp add: float_mul_Finite z_def)
    ultimately show ?thesis
      using Finite by (simp add: discriminator_train_test_set_Finite [OF assms(1)])
  next
    case PosInf
    then show ?thesis
      by (simp add: discriminator_train_test_set_bound [OF assms(1)] float_mul_Finite
          z_def [symmetric] py_int_def)
  next
    case NegInf
    with round64_nonneg(1) [OF z0] show ?thesis by simp
  next
    case NaN
    with round64_not_nan [of z] show ?thesis by simp
  qed
  then show "discriminator_train_test_set nsd mnist (Finite x) =
      (if round64 (real (length X) * x) = PosInf then Inl OverflowError
       else Inr ([], [], X, y))"
    by (simp only: z_def)
next
  fix x :: real
  assume x0: "x < 0"
  define z where "z = real (length X) * x"
  have lens: "length y = length X" by (rule assemble_loop_lengths [OF assms(1)])
  have le0: "z \<le> 0"
    unfolding z_def using x0 by (simp add: mult_nonneg_nonpos)
  have "discriminator_train_test_set nsd mnist (Finite x) =
      (case round64 z of
         Finite p \<Rightarrow>
           (let k = nat (- \<lceil>p\<rceil>)
            in Inr (take k X, take k y, drop k X, drop k y))
       | PosInf \<Rightarrow> Inl OverflowError
       | NegInf \<Rightarrow> Inl OverflowError
       | NaN \<Rightarrow> Inl ValueError)"
  proof (cases "round64 z")
    case (Finite p)
    have p0: "p \<le> 0" using le0 Finite by (rule round64_nonpos(2))
    then have c: "0 \<le> - \<lceil>p\<rceil>"
      by (simp add: ceiling_le_iff)
    define k where "k = nat (- \<lceil>p\<rceil>)"
    have sb: "slice_bound X (- trunc p) = min k (length X)"
      using c by (simp add: trunc_nonpos [OF p0] slice_bound_nonneg k_def)
    have "take (min k (length X)) X = take k X" "drop (min k (length X)) X = drop k X"
      "take (min k (length X)) y = take k y" "drop (min k (length X)) y = drop k y"
      using lens by (simp_all add: min_def)
    moreover have "float_mul (real (length X)) (Finite x) = Finite p"
      using Finite by (simp add: float_mul_Finite z_def)
    ultimately have "discriminator_train_test_set nsd mnist (Finite x) =
        Inr (take k X, take k y, drop k X, drop k y)"
      using sb by (simp add: discriminator_train_test_set_Finite [OF assms(1)])
    then show ?thesis
      using Finite by (simp add: k_def Let_def)
  next
    case PosInf
    then show ?thesis
      by (simp add: discriminator_train_test_set_bound [OF assms(1)] float_mul_Finite
          z_def [symmetric] py_int_def)
  next
    case NegInf
    then show ?thesis
      by (simp add: discriminator_train_test_set_bound [OF assms(1)] float_mul_Finite
          z_def [symmetric] py_int_def)
  next
    case NaN
    then show ?thesis
      by (simp add: discriminator_train_test_set_bound [OF assms(1)] float_mul_Finite
          z_def [symmetric] py_int_def)
  qed
  then show "discriminator_train_test_set nsd mnist (Finite x) =
      (case round64 (real (length X) * x) of
         Finite p \<Rightarrow>
           (let k = nat (- \<lceil>p\<rceil>)
            in Inr (take k X, take k y, drop k X, drop k y))
       | PosInf \<Rightarrow> Inl OverflowError
       | NegInf \<Rightarrow> Inl OverflowError
       | NaN \<Rightarrow> Inl ValueError)"
    by (simp only: z_def)
next
  show "discriminator_train_test_set nsd mnist PosInf =
      (if X = [] then Inl ValueError else Inl OverflowError)"
    by (simp add: discriminator_train_test_set_bound [OF assms(1)] float_mul_def py_int_def)
next
  show "discriminator_train_test_set nsd mnist NegInf =
      (if X = [] then Inl ValueError else Inl OverflowError)"
    by (simp add: discriminator_train_test_set_bound [OF assms(1)] float_mul_def py_int_def)
next
  show "discriminator_train_test_set nsd mnist NaN = Inl ValueError"
    by (simp add: discriminator_train_test_set_bound [OF assms(1)] float_mul_def py_int_def)
qed

theorem fraction_out_of_range_behaviour_witness:
  "assemble_loop 0 [10 :: nat, 20] [1, 2] [] [] =
     Inr ([10, 1, 20, 2], [[1, 0], [0, 1], [1, 0], [0, 1]]) \<and>
   length [10 :: nat, 1, 20, 2] < 2 ^ 53 \<and>
   discriminator_train_test_set [10 :: nat, 20] [1, 2] (Finite 2) =
     Inr ([], [], [10, 1, 20, 2], [[1, 0], [0, 1], [1, 0], [0, 1]]) \<and>
   discriminator_train_test_set [10 :: nat, 20] [1, 2] (Finite (10 ^ 308)) =
     Inl OverflowError \<and>
   discriminator_train_test_set [10 :: nat, 20] [1, 2] (Finite (- 1 / 2)) =
     Inr ([10, 1], [[1, 0], [0, 1]], [20, 2], [[1, 0], [0, 1]]) \<and>
   discriminator_train_test_set [10 :: nat, 20] [1, 2] PosInf = Inl OverflowError \<and>
   discriminator_train_test_set [10 :: nat, 20] [1, 2] NegInf = Inl OverflowError \<and>
   discriminator_train_test_set [10 :: nat, 20] [1, 2] NaN = Inl ValueError"
proof -
  have h: "assemble_loop 0 [10 :: nat, 20] [1, 2] [] [] =
      Inr ([10, 1, 20, 2], [[1, 0], [0, 1], [1, 0], [0, 1]])"
    by (simp add: assemble_loop.simps)
  have l: "length [10 :: nat, 1, 20, 2] < 2 ^ 53" by simp
  have r8: "round64 (4 * 2) = Finite 8"
    by (simp add: round64_def ulp_def binade_def bit_length.simps pow2_def
        round_half_even_def Let_def)
  have rm2: "round64 (4 * (- 1 / 2)) = Finite (- 2)"
    by (simp add: round64_def ulp_def binade_def bit_length.simps pow2_def
        round_half_even_def Let_def)
  have "(2::real) ^ 1024 \<le> 4 * 10 ^ 308" by simp
  then have rinf: "round64 (4 * 10 ^ 308) = PosInf" by (rule round64_overflow)
  have big: "(1::real) \<le> 10 ^ 308" by simp
  note t = fraction_out_of_range_behaviour [OF h l]
  from t have a: "\<And>x. 1 \<le> x \<Longrightarrow>
      discriminator_train_test_set [10 :: nat, 20] [1, 2] (Finite x) =
        (if round64 (real (length [10 :: nat, 1, 20, 2]) * x) = PosInf then Inl OverflowError
         else Inr ([], [], [10, 1, 20, 2], [[1, 0], [0, 1], [1, 0], [0, 1]]))"
    by blast
  from t have b: "\<And>x. x < 0 \<Longrightarrow>
      discriminator_train_test_set [10 :: nat, 20] [1, 2] (Finite x) =
        (case round64 (real (length [10 :: nat, 1, 20, 2]) * x) of
           Finite p \<Rightarrow>
             (let k = nat (- \<lceil>p\<rceil>)
              in Inr (take k [10 :: nat, 1, 20, 2], take k [[1, 0], [0, 1], [1, 0], [0, 1]],
                      drop k [10 :: nat, 1, 20, 2], drop k [[1, 0], [0, 1], [1, 0], [0, 1]]))
         | PosInf \<Rightarrow> Inl OverflowError
         | NegInf \<Rightarrow> Inl OverflowError
         | NaN \<Rightarrow> Inl ValueError)"
    by blast
  have "discriminator_train_test_set [10 :: nat, 20] [1, 2] (Finite 2) =
      Inr ([], [], [10, 1, 20, 2], [[1, 0], [0, 1], [1, 0], [0, 1]])"
    using a [of 2] r8 by simp
  moreover have "discriminator_train_test_set [10 :: nat, 20] [1, 2] (Finite (10 ^ 308)) =
      Inl OverflowError"
    using a [OF big] rinf by simp
  moreover have "discriminator_train_test_set [10 :: nat, 20] [1, 2] (Finite (- 1 / 2)) =
      Inr ([10, 1], [[1, 0], [0, 1]], [20, 2], [[1, 0], [0, 1]])"
    using b [of "- 1 / 2"] rm2 by (simp add: Let_def numeral_2_eq_2)
  moreover from t have
    "discriminator_train_test_set [10 :: nat, 20] [1, 2] PosInf = Inl OverflowError"
    "discriminator_train_test_set [10 :: nat, 20] [1, 2] NegInf = Inl OverflowError"
    "discriminator_train_test_set [10 :: nat, 20] [1, 2] NaN = Inl ValueError"
    by simp_all
  ultimately show ?thesis using h l by blast
qed

end
